theory Spec2Isabelle
  imports Main "HOL-Library.Word"
begin

section \<open>express-ipfilter: the middleware of \<^verbatim>\<open>src/ipfilter.js\<close>\<close>

subsection \<open>Values\<close>

text \<open>
  An address handled by the middleware is a JavaScript string or \<^verbatim>\<open>undefined\<close>
  (an absent header, an absent \<^verbatim>\<open>remoteAddress\<close>, or index 1 of a split that has
  one piece only). A rule token (\<^verbatim>\<open>constraint\<close> in the source) is a string or an array
  of strings. Strings are byte strings here.
\<close>

datatype jsval = Undefined | Str string

datatype constraint = CStr string | CArr "string list"

datatype error = TypeError

text \<open>
  The outcome of one call of the middleware: \<^verbatim>\<open>next()\<close>, or \<^verbatim>\<open>next(err)\<close> with the
  message handed to \<^verbatim>\<open>IpDeniedError\<close>, or an exception that leaves the middleware.
\<close>

datatype verdict = Proceed | Denied string | Thrown error

record req =
  headers :: "string \<rightharpoonup> string"
  remoteAddress :: jsval
  url :: string

text \<open>
  The functions of the packages \<^verbatim>\<open>ip\<close> and \<^verbatim>\<open>range_check\<close> and of the built-in
  \<^verbatim>\<open>RegExp\<close> are not part of the repository; they are parameters of the model.
  \<^verbatim>\<open>ip.toLong\<close> is given for strings: on \<^verbatim>\<open>undefined\<close> the call throws (see
  \<open>toLongOf\<close> below).
\<close>

record lib =
  validRange :: "string \<Rightarrow> bool"
  inRange :: "jsval \<Rightarrow> string \<Rightarrow> bool"
  toLong :: "string \<Rightarrow> 32 word"
  isV4Format :: "jsval \<Rightarrow> bool"
  isV6Format :: "jsval \<Rightarrow> bool"
  regex_test :: "string \<Rightarrow> string \<Rightarrow> bool"

text \<open>
  The options the decision reads. \<^verbatim>\<open>detectIp\<close> is \<open>None\<close> for the default
  (\<^verbatim>\<open>getClientIp\<close>). The logging options only write to the log sink and are left out.
\<close>

record settings =
  mode :: string
  allowedHeaders :: "string list"
  excluding :: "string list"
  detectIp :: "(req \<Rightarrow> jsval list) option"

subsection \<open>String operations of the language\<close>

text \<open>\<^verbatim>\<open>toLowerCase\<close>, on the letters A to Z.\<close>

definition lower_char :: "char \<Rightarrow> char" where
  "lower_char c =
     (case map_of (zip ''ABCDEFGHIJKLMNOPQRSTUVWXYZ'' ''abcdefghijklmnopqrstuvwxyz'') c of
        None \<Rightarrow> c | Some d \<Rightarrow> d)"

definition toLowerCase :: "string \<Rightarrow> string" where
  "toLowerCase s = map lower_char s"

text \<open>\<^verbatim>\<open>s.indexOf(sub)\<close>: the first position where \<open>sub\<close> occurs, or \<open>-1\<close>.\<close>

fun indexOf :: "string \<Rightarrow> string \<Rightarrow> int" where
  "indexOf [] sub = (if sub = [] then 0 else - 1)"
| "indexOf (c # cs) sub =
     (if take (length sub) (c # cs) = sub then 0
      else (let i = indexOf cs sub in if i = - 1 then - 1 else i + 1))"

text \<open>
  \<^verbatim>\<open>s.split(sep)\<close> for a non-empty separator (the source splits on \<^verbatim>\<open>','\<close>,
  \<^verbatim>\<open>'::ffff:'\<close> and \<^verbatim>\<open>':'\<close> only): the pieces between the occurrences of \<open>sep\<close>,
  found from left to right without overlap.
\<close>

function str_split :: "string \<Rightarrow> string \<Rightarrow> string list" where
  "str_split sep [] = [[]]"
| "str_split sep (c # cs) =
     (if sep \<noteq> [] \<and> take (length sep) (c # cs) = sep
      then [] # str_split sep (drop (length sep) (c # cs))
      else (case str_split sep cs of [] \<Rightarrow> [[c]] | p # ps \<Rightarrow> (c # p) # ps))"
  by pat_completeness auto
termination
  by (relation "measure (\<lambda>(sep, s). length s)") (auto simp: neq_Nil_conv)

text \<open>\<^verbatim>\<open>xs[i]\<close> on an array of strings: \<^verbatim>\<open>undefined\<close> out of range.\<close>

definition at_index :: "string list \<Rightarrow> nat \<Rightarrow> jsval" where
  "at_index xs i = (if i < length xs then Str (xs ! i) else Undefined)"

text \<open>
  \<^verbatim>\<open>constraint.length\<close> and \<^verbatim>\<open>constraint[i]\<close>: on a string they are the number of
  characters and the one-character string at position \<open>i\<close>.
\<close>

fun clength :: "constraint \<Rightarrow> nat" where
  "clength (CStr s) = length s"
| "clength (CArr xs) = length xs"

fun cindex :: "constraint \<Rightarrow> nat \<Rightarrow> jsval" where
  "cindex (CStr s) i = (if i < length s then Str [s ! i] else Undefined)"
| "cindex (CArr xs) i = at_index xs i"

text \<open>\<^verbatim>\<open>ips.join(',')\<close>: \<^verbatim>\<open>undefined\<close> is joined as the empty string.\<close>

fun to_text :: "jsval \<Rightarrow> string" where
  "to_text Undefined = []"
| "to_text (Str s) = s"

fun join :: "jsval list \<Rightarrow> string" where
  "join [] = []"
| "join [x] = to_text x"
| "join (x # y # ys) = to_text x @ '','' @ join (y # ys)"

text \<open>\<^verbatim>\<open>_.some\<close> and \<^verbatim>\<open>_.every\<close> on a list of booleans.\<close>

definition some :: "bool list \<Rightarrow> bool" where
  "some result = list_ex (\<lambda>b. b) result"

definition every :: "bool list \<Rightarrow> bool" where
  "every result = list_all (\<lambda>b. b) result"

subsection \<open>The rule source\<close>

text \<open>
  \<^verbatim>\<open>getIps\<close> is a function of no argument that the middleware may call several
  times; a callback may answer differently each time. It is modelled by the answer
  to each call of one decision, \<open>getIps k\<close> for the call number \<open>k\<close>, and every
  function that can call it takes the number of calls made so far and returns the
  new number. An array given at configuration is the constant source. A falsy answer
  (\<^verbatim>\<open>ips || false\<close>) behaves as the empty array at every use and is modelled by it.
\<close>

type_synonym rule_source = "nat \<Rightarrow> constraint list"

definition static_ips :: "constraint list \<Rightarrow> rule_source" where
  "static_ips ips = (\<lambda>k. ips)"

text \<open>
  A map in sequence that threads the call counter and stops at the first exception,
  with the number of calls made until then.
\<close>

fun mapS :: "('a \<Rightarrow> nat \<Rightarrow> (error + 'b) \<times> nat) \<Rightarrow> 'a list \<Rightarrow> nat
               \<Rightarrow> (error + 'b list) \<times> nat" where
  "mapS f [] n = (Inr [], n)"
| "mapS f (x # xs) n =
     (case f x n of
        (Inl e, n1) \<Rightarrow> (Inl e, n1)
      | (Inr y, n1) \<Rightarrow>
          (case mapS f xs n1 of
             (Inl e, n2) \<Rightarrow> (Inl e, n2)
           | (Inr ys, n2) \<Rightarrow> (Inr (y # ys), n2)))"

subsection \<open>getClientIp\<close>

definition header_get :: "req \<Rightarrow> string \<Rightarrow> jsval" where
  "header_get r header = (case headers r header of None \<Rightarrow> Undefined | Some v \<Rightarrow> Str v)"

text \<open>The \<^verbatim>\<open>_.reduce\<close> over \<^verbatim>\<open>settings.allowedHeaders\<close>, from the accumulator \<^verbatim>\<open>''\<close>.\<close>

definition headerIp :: "string list \<Rightarrow> req \<Rightarrow> jsval" where
  "headerIp hs r =
     foldl (\<lambda>acc header. let testIp = header_get r header in
                           if testIp \<noteq> Str [] then testIp else acc) (Str []) hs"

text \<open>
  The function mapped over the addresses. A method call on \<^verbatim>\<open>undefined\<close> throws; the
  call is reached only when the format test before \<^verbatim>\<open>&&\<close> answers true.
\<close>

definition strip_v6 :: "lib \<Rightarrow> jsval \<Rightarrow> error + jsval" where
  "strip_v6 L ipAddress =
     (if isV6Format L ipAddress then
        (case ipAddress of
           Undefined \<Rightarrow> Inl TypeError
         | Str s \<Rightarrow> if indexOf s ''::ffff'' \<noteq> - 1
                    then Inr (at_index (str_split ''::ffff:'' s) 1)
                    else Inr ipAddress)
      else Inr ipAddress)"

definition strip_port :: "lib \<Rightarrow> jsval \<Rightarrow> error + jsval" where
  "strip_port L ipAddress =
     (if isV4Format L ipAddress then
        (case ipAddress of
           Undefined \<Rightarrow> Inl TypeError
         | Str s \<Rightarrow> if indexOf s '':'' \<noteq> - 1
                    then Inr (at_index (str_split '':'' s) 0)
                    else Inr ipAddress)
      else Inr ipAddress)"

definition normalizeIp :: "lib \<Rightarrow> jsval \<Rightarrow> error + jsval" where
  "normalizeIp L ipAddress =
     (case strip_v6 L ipAddress of Inl e \<Rightarrow> Inl e | Inr a \<Rightarrow> strip_port L a)"

fun mapE :: "('a \<Rightarrow> error + 'b) \<Rightarrow> 'a list \<Rightarrow> error + 'b list" where
  "mapE f [] = Inr []"
| "mapE f (x # xs) =
     (case f x of Inl e \<Rightarrow> Inl e
      | Inr y \<Rightarrow> (case mapE f xs of Inl e \<Rightarrow> Inl e | Inr ys \<Rightarrow> Inr (y # ys)))"

text \<open>The addresses before the map: the split header value, or the peer address.\<close>

definition rawAddresses :: "settings \<Rightarrow> req \<Rightarrow> jsval list" where
  "rawAddresses S r =
     (let ipAddresses = (case headerIp (allowedHeaders S) r of
                           Undefined \<Rightarrow> []
                         | Str s \<Rightarrow> if s \<noteq> [] then map Str (str_split '','' s) else [])
      in if length ipAddresses = 0 then [remoteAddress r] else ipAddresses)"

definition getClientIp :: "lib \<Rightarrow> settings \<Rightarrow> req \<Rightarrow> error + jsval list" where
  "getClientIp L S r =
     (let ipAddresses = rawAddresses S r
      in if length ipAddresses = 0 then Inr ipAddresses
         else mapE (normalizeIp L) ipAddresses)"

subsection \<open>The tests of one rule token\<close>

definition testExplicitIp :: "jsval \<Rightarrow> string \<Rightarrow> string \<Rightarrow> bool" where
  "testExplicitIp ip c m = (if ip = Str c then m = ''allow'' else m = ''deny'')"

definition testCidrBlock :: "lib \<Rightarrow> jsval \<Rightarrow> string \<Rightarrow> string \<Rightarrow> bool" where
  "testCidrBlock L ip c m = (if inRange L ip c then m = ''allow'' else m = ''deny'')"

text \<open>\<^verbatim>\<open>iputil.toLong(v)\<close>: the call throws a TypeError when \<open>v\<close> is \<^verbatim>\<open>undefined\<close>.\<close>

definition toLongOf :: "lib \<Rightarrow> jsval \<Rightarrow> error + 32 word" where
  "toLongOf L v = (case v of Undefined \<Rightarrow> Inl TypeError | Str s \<Rightarrow> Inr (toLong L s))"

text \<open>
  The function given to \<^verbatim>\<open>_.filter\<close> in \<^verbatim>\<open>testRange\<close>; the three calls of
  \<^verbatim>\<open>toLong\<close> are made in the order of the source.
\<close>

definition rangeFilter :: "lib \<Rightarrow> jsval \<Rightarrow> constraint \<Rightarrow> error + bool" where
  "rangeFilter L ip c =
     (if clength c > 1 then
        (case toLongOf L (cindex c 0) of
           Inl e \<Rightarrow> Inl e
         | Inr startIp \<Rightarrow>
             (case toLongOf L (cindex c 1) of
                Inl e \<Rightarrow> Inl e
              | Inr endIp \<Rightarrow>
                  (case toLongOf L ip of
                     Inl e \<Rightarrow> Inl e
                   | Inr longIp \<Rightarrow> Inr (longIp \<ge> startIp \<and> longIp \<le> endIp))))
      else Inr (ip = cindex c 0))"

text \<open>\<^verbatim>\<open>_.filter\<close> with a function that may throw: the first exception ends it.\<close>

fun filterE :: "('a \<Rightarrow> error + bool) \<Rightarrow> 'a list \<Rightarrow> error + 'a list" where
  "filterE p [] = Inr []"
| "filterE p (x # xs) =
     (case p x of
        Inl e \<Rightarrow> Inl e
      | Inr b \<Rightarrow>
          (case filterE p xs of
             Inl e \<Rightarrow> Inl e
           | Inr ys \<Rightarrow> Inr (if b then x # ys else ys)))"

text \<open>
  \<^verbatim>\<open>testRange\<close> does not read its parameter \<^verbatim>\<open>constraint\<close> (the function given to
  the filter has a parameter of the same name): it filters a fresh answer of
  \<^verbatim>\<open>getIps()\<close>.
\<close>

definition testRange :: "lib \<Rightarrow> rule_source \<Rightarrow> jsval \<Rightarrow> constraint \<Rightarrow> string \<Rightarrow> nat
                          \<Rightarrow> (error + bool) \<times> nat" where
  "testRange L getIps ip c m n =
     (case filterE (rangeFilter L ip) (getIps n) of
        Inl e \<Rightarrow> (Inl e, Suc n)
      | Inr filteredSet \<Rightarrow>
          (Inr (if length filteredSet > 0 then m = ''allow'' else m = ''deny''), Suc n))"

text \<open>\<^verbatim>\<open>testIp\<close>, called with the token as \<^verbatim>\<open>this\<close>.\<close>

fun testIp :: "lib \<Rightarrow> rule_source \<Rightarrow> constraint \<Rightarrow> jsval \<Rightarrow> string \<Rightarrow> nat
                 \<Rightarrow> (error + bool) \<times> nat" where
  "testIp L getIps (CStr c) ip m n =
     (if validRange L c then (Inr (testCidrBlock L ip c m), n)
      else (Inr (testExplicitIp ip c m), n))"
| "testIp L getIps (CArr xs) ip m n = testRange L getIps ip (CArr xs) m n"

subsection \<open>matchClientIp and the middleware\<close>

definition matchClientIp :: "lib \<Rightarrow> settings \<Rightarrow> rule_source \<Rightarrow> jsval \<Rightarrow> nat
                              \<Rightarrow> (error + bool) \<times> nat" where
  "matchClientIp L S getIps ip n =
     (let m = toLowerCase (mode S)
      in case mapS (\<lambda>c. testIp L getIps c ip m) (getIps n) (Suc n) of
           (Inl e, n1) \<Rightarrow> (Inl e, n1)
         | (Inr result, n1) \<Rightarrow>
             (Inr (if m = ''allow'' then some result else every result), n1))"

definition error :: "jsval list \<Rightarrow> verdict" where
  "error ips = Denied (''Access denied to IP address: '' @ join ips)"

definition detect :: "lib \<Rightarrow> settings \<Rightarrow> req \<Rightarrow> error + jsval list" where
  "detect L S r = (case detectIp S of None \<Rightarrow> getClientIp L S r | Some f \<Rightarrow> Inr (f r))"

definition excluded :: "lib \<Rightarrow> settings \<Rightarrow> req \<Rightarrow> bool" where
  "excluded L S r =
     (length (excluding S) > 0 \<and>
      length (filter (\<lambda>exclude. regex_test L exclude (url r)) (excluding S)) > 0)"

definition ipfilter :: "lib \<Rightarrow> settings \<Rightarrow> rule_source \<Rightarrow> req \<Rightarrow> nat \<Rightarrow> verdict \<times> nat" where
  "ipfilter L S getIps r n =
     (if excluded L S r then (Proceed, n)
      else
        (let ips0 = getIps n; n1 = Suc n
         in if length ips0 = 0 then
              (if mode S = ''allow'' then (error [Str ''0.0.0.0/0''], n1) else (Proceed, n1))
            else
              (case detect L S r of
                 Inl e \<Rightarrow> (Thrown e, n1)
               | Inr ips \<Rightarrow>
                   (case mapS (matchClientIp L S getIps) ips n1 of
                      (Inl e, n2) \<Rightarrow> (Thrown e, n2)
                    | (Inr matchResults, n2) \<Rightarrow>
                        if every matchResults then (Proceed, n2) else (error ips, n2)))))"

subsection \<open>Range membership as the specification words it\<close>

text \<open>
  The specification's reading of range tokens, for comparison with \<open>testRange\<close>:
  the candidate is a member when some range-shaped token matches it, a token of two
  elements by the inclusive comparison of the integer forms, a token of one element
  by equality with its sole element. Other tokens do not count.
\<close>

fun spec_token_matches :: "lib \<Rightarrow> string \<Rightarrow> constraint \<Rightarrow> bool" where
  "spec_token_matches L ip (CArr [a]) = (ip = a)"
| "spec_token_matches L ip (CArr [a, b]) =
     (toLong L a \<le> toLong L ip \<and> toLong L ip \<le> toLong L b)"
| "spec_token_matches L ip c = False"

definition spec_range_member :: "lib \<Rightarrow> string \<Rightarrow> constraint list \<Rightarrow> bool" where
  "spec_range_member L ip R = list_ex (spec_token_matches L ip) R"

fun is_array :: "constraint \<Rightarrow> bool" where
  "is_array (CStr s) = False"
| "is_array (CArr xs) = True"

fun is_range_token :: "constraint \<Rightarrow> bool" where
  "is_range_token (CArr [a]) = True"
| "is_range_token (CArr [a, b]) = True"
| "is_range_token c = False"

subsection \<open>A library instance for concrete inputs\<close>

text \<open>
  To evaluate the model on concrete requests the library parameters need values.
  \<open>dotted_long\<close> is \<^verbatim>\<open>ip.toLong\<close> on strings of decimal octets separated by dots
  (each octet is shifted in, 8 bits at a time, so \<^verbatim>\<open>'1'\<close> gives 1 and
  \<^verbatim>\<open>'127.0.0.1'\<close> gives 2130706433); \<open>dotted_quad\<close> is the test for four octets of one
  to three digits, as \<^verbatim>\<open>ip.isV4Format\<close> is. The other fields are simple stand-ins: a string with a slash counts
  as a CIDR block, membership compares the leading bits, a string with a colon counts
  as IPv6-formatted, and a pattern is searched in the path as a plain substring.
\<close>

definition digit_val :: "char \<Rightarrow> nat" where
  "digit_val c = (case map_of (zip ''0123456789'' [0, 1, 2, 3, 4, 5, 6, 7, 8, 9]) c of
                    None \<Rightarrow> 0 | Some d \<Rightarrow> d)"

definition parse_dec :: "string \<Rightarrow> nat" where
  "parse_dec s = foldl (\<lambda>a c. 10 * a + digit_val c) 0 s"

definition dotted_long :: "string \<Rightarrow> 32 word" where
  "dotted_long s =
     foldl (\<lambda>ipl octet. push_bit 8 ipl + of_nat (parse_dec octet)) 0 (str_split ''.'' s)"

definition is_octet :: "string \<Rightarrow> bool" where
  "is_octet s = (1 \<le> length s \<and> length s \<le> 3 \<and> list_all (\<lambda>c. c \<in> set ''0123456789'') s)"

definition dotted_quad :: "string \<Rightarrow> bool" where
  "dotted_quad s = (let ps = str_split ''.'' s in length ps = 4 \<and> list_all is_octet ps)"

definition cidr_contains :: "string \<Rightarrow> string \<Rightarrow> bool" where
  "cidr_contains c s =
     (case str_split ''/'' c of
        [base, bits] \<Rightarrow> drop_bit (32 - parse_dec bits) (dotted_long s)
                        = drop_bit (32 - parse_dec bits) (dotted_long base)
      | _ \<Rightarrow> False)"

definition sample_lib :: lib where
  "sample_lib =
     \<lparr> validRange = (\<lambda>c. CHR ''/'' \<in> set c),
       inRange = (\<lambda>ip c. case ip of Undefined \<Rightarrow> False | Str s \<Rightarrow> cidr_contains c s),
       toLong = dotted_long,
       isV4Format = (\<lambda>v. case v of Undefined \<Rightarrow> False | Str s \<Rightarrow> dotted_quad s),
       isV6Format = (\<lambda>v. case v of Undefined \<Rightarrow> False | Str s \<Rightarrow> CHR '':'' \<in> set s),
       regex_test = (\<lambda>p u. indexOf u p \<noteq> - 1) \<rparr>"

text \<open>Requests and options used in the concrete instances below.\<close>

definition peer_request :: "string \<Rightarrow> string \<Rightarrow> req" where
  "peer_request a path = \<lparr> headers = Map.empty, remoteAddress = Str a, url = path \<rparr>"

definition forwarded_request :: "string \<Rightarrow> req" where
  "forwarded_request v =
     \<lparr> headers = [''x-forwarded-for'' \<mapsto> v], remoteAddress = Str ''10.9.9.9'', url = ''/'' \<rparr>"

definition plain_settings :: "string \<Rightarrow> settings" where
  "plain_settings m = \<lparr> mode = m, allowedHeaders = [], excluding = [], detectIp = None \<rparr>"

definition forwarded_settings :: "string \<Rightarrow> settings" where
  "forwarded_settings m =
     \<lparr> mode = m, allowedHeaders = [''x-forwarded-for''], excluding = [], detectIp = None \<rparr>"

definition header_request :: "(string \<times> string) list \<Rightarrow> req" where
  "header_request kvs =
     \<lparr> headers = map_of kvs, remoteAddress = Str ''10.9.9.9'', url = ''/'' \<rparr>"

definition header_settings :: "string list \<Rightarrow> settings" where
  "header_settings hs =
     \<lparr> mode = ''deny'', allowedHeaders = hs, excluding = [], detectIp = None \<rparr>"

lemmas model_defs =
  ipfilter_def excluded_def detect_def getClientIp_def rawAddresses_def headerIp_def
  header_get_def normalizeIp_def strip_v6_def strip_port_def matchClientIp_def
  testRange_def rangeFilter_def toLongOf_def testCidrBlock_def testExplicitIp_def error_def
  static_ips_def at_index_def some_def every_def toLowerCase_def lower_char_def Let_def

lemmas sample_defs =
  sample_lib_def dotted_long_def parse_dec_def digit_val_def dotted_quad_def is_octet_def
  cidr_contains_def peer_request_def forwarded_request_def plain_settings_def
  forwarded_settings_def header_request_def header_settings_def

section \<open>Properties\<close>

subsection \<open>Searching and splitting strings\<close>

lemma indexOf_ge: "indexOf s sub \<noteq> - 1 \<Longrightarrow> 0 \<le> indexOf s sub"
  by (induction s) (auto simp: Let_def split: if_splits)

lemma indexOf_absent: "c \<in> set sub \<Longrightarrow> c \<notin> set s \<Longrightarrow> indexOf s sub = - 1"
proof (induction s)
  case Nil
  then show ?case by auto
next
  case (Cons x xs)
  have "take (length sub) (x # xs) \<noteq> sub"
  proof
    assume "take (length sub) (x # xs) = sub"
    then have "set sub \<subseteq> set (x # xs)" by (metis set_take_subset)
    with Cons.prems show False by auto
  qed
  with Cons show ?case by (simp add: Let_def)
qed

lemma indexOf_char: "(indexOf s [c] \<noteq> - 1) = (c \<in> set s)"
proof (induction s)
  case Nil
  show ?case by simp
next
  case (Cons x xs)
  show ?case
  proof (cases "x = c")
    case True
    then show ?thesis by simp
  next
    case False
    then show ?thesis using Cons indexOf_ge [of xs "[c]"] by (auto simp: Let_def)
  qed
qed

lemma indexOf_longer: "indexOf s (a @ b) \<noteq> - 1 \<Longrightarrow> indexOf s a \<noteq> - 1"
proof (induction s)
  case Nil
  then show ?case by (auto split: if_splits)
next
  case (Cons x xs)
  show ?case
  proof (cases "take (length (a @ b)) (x # xs) = a @ b")
    case True
    then have "take (length a) (x # xs) = a"
      by (metis append_eq_conv_conj take_take length_append le_add1 min_absorb1)
    then show ?thesis by simp
  next
    case False
    with Cons.prems have "indexOf xs (a @ b) \<noteq> - 1" by (auto simp: Let_def split: if_splits)
    then have "indexOf xs a \<noteq> - 1" by (rule Cons.IH)
    then show ?thesis using indexOf_ge [of xs a] by (auto simp: Let_def)
  qed
qed

lemma str_split_absent: "sep \<noteq> [] \<Longrightarrow> indexOf s sep = - 1 \<Longrightarrow> str_split sep s = [s]"
proof (induction s)
  case Nil
  show ?case by simp
next
  case (Cons x xs)
  from Cons.prems have n: "take (length sep) (x # xs) \<noteq> sep" and i: "indexOf xs sep = - 1"
    using indexOf_ge [of xs sep] by (auto simp: Let_def split: if_splits)
  from Cons.IH [OF Cons.prems(1) i] n show ?case by simp
qed

lemma str_split_first:
  "sep \<noteq> [] \<Longrightarrow> indexOf s sep \<noteq> - 1 \<Longrightarrow>
   str_split sep s = take (nat (indexOf s sep)) s
                       # str_split sep (drop (nat (indexOf s sep) + length sep) s)"
proof (induction s)
  case Nil
  then show ?case by simp
next
  case (Cons x xs)
  show ?case
  proof (cases "take (length sep) (x # xs) = sep")
    case True
    then show ?thesis using Cons.prems(1) by simp
  next
    case False
    with Cons.prems have i: "indexOf xs sep \<noteq> - 1" by (auto simp: Let_def split: if_splits)
    then have ge: "0 \<le> indexOf xs sep" by (rule indexOf_ge)
    have ix: "indexOf (x # xs) sep = indexOf xs sep + 1" using False i by (simp add: Let_def)
    have k: "nat (indexOf xs sep + 1) = Suc (nat (indexOf xs sep))" using ge by simp
    show ?thesis using False Cons.IH [OF Cons.prems(1) i]
      by (simp add: ix k del: indexOf.simps)
  qed
qed

lemma str_split_not_Nil: "str_split sep s \<noteq> []"
  by (induction sep s rule: str_split.induct) (auto split: list.splits)

lemma mapE_Inr: "(mapE f xs = Inr ys) = list_all2 (\<lambda>x y. f x = Inr y) xs ys"
proof (induction xs arbitrary: ys)
  case Nil
  show ?case by auto
next
  case (Cons x xs)
  show ?case
  proof (cases "f x")
    case (Inl e)
    then show ?thesis by (cases ys) auto
  next
    case fx: (Inr y)
    show ?thesis
    proof (cases "mapE f xs")
      case (Inl e)
      then have "\<And>zs. \<not> list_all2 (\<lambda>x y. f x = Inr y) xs zs" using Cons.IH by auto
      with fx Inl show ?thesis by (cases ys) auto
    next
      case (Inr zs)
      have "\<And>ws. list_all2 (\<lambda>x y. f x = Inr y) xs ws = (ws = zs)"
        unfolding Cons.IH [symmetric] Inr by auto
      with fx Inr show ?thesis by (cases ys) auto
    qed
  qed
qed


subsection \<open>Resolving the addresses\<close>

lemma headerIp_skips_empty:
  "\<forall>k\<in>set post. headers r k = Some [] \<Longrightarrow>
   foldl (\<lambda>acc header. let testIp = header_get r header in
                         if testIp \<noteq> Str [] then testIp else acc) a post = a"
  by (induction post arbitrary: a) (simp_all add: header_get_def)

lemma headerIp_last_non_empty:
  assumes "hs = pre @ h # post" and "headers r h = Some v" and "v \<noteq> []"
    and "\<forall>k\<in>set post. headers r k = Some []"
  shows "headerIp hs r = Str v"
  using assms(2,3) headerIp_skips_empty [OF assms(4)]
  by (simp add: headerIp_def assms(1) header_get_def)

text \<open>
  Claim C5, as amended: the addresses are taken from the value of the last header of
  the configured list whose value is non-empty, when every header after it in the list
  is present with an empty value; the headers before it do not influence the result,
  and no values are merged.
\<close>

theorem getClientIp_last_header_wins:
  assumes "allowedHeaders S = pre @ h # post" and "headers r h = Some v" and "v \<noteq> []"
    and "\<forall>k\<in>set post. headers r k = Some []"
  shows "getClientIp L S r = mapE (normalizeIp L) (map Str (str_split '','' v))"
proof -
  have "headerIp (allowedHeaders S) r = Str v"
    using assms by (rule headerIp_last_non_empty)
  then have "rawAddresses S r = map Str (str_split '','' v)"
    using assms(3) str_split_not_Nil [of "'',''" v] by (simp add: rawAddresses_def)
  then show ?thesis
    using str_split_not_Nil [of "'',''" v] by (simp add: getClientIp_def)
qed

theorem getClientIp_last_header_wins_witness:
  "allowedHeaders (header_settings [''x-forwarded-for'', ''x-real-ip'', ''x-client-ip''])
     = [''x-forwarded-for''] @ ''x-real-ip'' # [''x-client-ip'']
   \<and> headers (header_request [(''x-forwarded-for'', ''1.1.1.1''),
        (''x-real-ip'', ''2.2.2.2,3.3.3.3''), (''x-client-ip'', [])]) ''x-real-ip''
       = Some ''2.2.2.2,3.3.3.3''
   \<and> ''2.2.2.2,3.3.3.3'' \<noteq> []
   \<and> headers (header_request [(''x-forwarded-for'', ''1.1.1.1''),
        (''x-real-ip'', ''2.2.2.2,3.3.3.3''), (''x-client-ip'', [])]) ''x-client-ip''
       = Some []
   \<and> getClientIp sample_lib
        (header_settings [''x-forwarded-for'', ''x-real-ip'', ''x-client-ip''])
        (header_request [(''x-forwarded-for'', ''1.1.1.1''),
           (''x-real-ip'', ''2.2.2.2,3.3.3.3''), (''x-client-ip'', [])])
       = Inr [Str ''2.2.2.2'', Str ''3.3.3.3'']"
proof -
  let ?S = "header_settings [''x-forwarded-for'', ''x-real-ip'', ''x-client-ip'']"
  let ?r = "header_request [(''x-forwarded-for'', ''1.1.1.1''),
              (''x-real-ip'', ''2.2.2.2,3.3.3.3''), (''x-client-ip'', [])]"
  have h1: "allowedHeaders ?S = [''x-forwarded-for''] @ ''x-real-ip'' # [''x-client-ip'']"
    by (simp add: header_settings_def)
  have h2: "headers ?r ''x-real-ip'' = Some ''2.2.2.2,3.3.3.3''"
    by (simp add: header_request_def)
  have h3: "''2.2.2.2,3.3.3.3'' \<noteq> []" by simp
  have h4: "\<forall>k\<in>set [''x-client-ip'']. headers ?r k = Some []"
    by (simp add: header_request_def)
  have e: "mapE (normalizeIp sample_lib) (map Str (str_split '','' ''2.2.2.2,3.3.3.3''))
             = Inr [Str ''2.2.2.2'', Str ''3.3.3.3'']"
    by (simp add: model_defs sample_defs)
  have h5: "headers ?r ''x-client-ip'' = Some []"
    by (simp add: header_request_def)
  show ?thesis
    using h1 h2 h3 h5 e getClientIp_last_header_wins [OF h1 h2 h3 h4, of sample_lib]
    by simp
qed

text \<open>
  The claim as first stated lets the first non-empty header win. With two configured
  headers that both carry an address, the address of the second one is used.
\<close>

theorem getClientIp_first_header_counterexample:
  "headers (header_request [(''x-forwarded-for'', ''1.1.1.1''), (''x-real-ip'', ''2.2.2.2'')])
     ''x-forwarded-for'' = Some ''1.1.1.1''
   \<and> getClientIp sample_lib (header_settings [''x-forwarded-for'', ''x-real-ip''])
        (header_request [(''x-forwarded-for'', ''1.1.1.1''), (''x-real-ip'', ''2.2.2.2'')])
       = Inr [Str ''2.2.2.2'']
   \<and> getClientIp sample_lib (header_settings [''x-forwarded-for'', ''x-real-ip''])
        (header_request [(''x-forwarded-for'', ''1.1.1.1''), (''x-real-ip'', ''2.2.2.2'')])
       \<noteq> Inr [Str ''1.1.1.1'']"
  by (simp add: model_defs sample_defs)

text \<open>
  A configured header that the request does not carry reads as \<^verbatim>\<open>undefined\<close>, which
  is not \<^verbatim>\<open>''\<close>: it replaces the value found so far, and the peer address is used.
\<close>

lemma absent_header_replaces_value:
  "getClientIp sample_lib (header_settings [''x-forwarded-for'', ''x-real-ip''])
     (header_request [(''x-forwarded-for'', ''1.1.1.1'')]) = Inr [Str ''10.9.9.9'']"
  by (simp add: model_defs sample_defs)


text \<open>The two steps of the normalization on strings.\<close>

lemma strip_port_no_colon: "CHR '':'' \<notin> set s \<Longrightarrow> strip_port L (Str s) = Inr (Str s)"
  using indexOf_char [of s "CHR '':''"] by (simp add: strip_port_def)

lemma str_split_at:
  assumes "sep \<noteq> []" and "indexOf (pre @ sep @ rest) sep = int (length pre)"
  shows "str_split sep (pre @ sep @ rest) = pre # str_split sep rest"
  using str_split_first [of sep "pre @ sep @ rest"] assms by simp

lemma strip_v6_mapped:
  assumes "isV6Format L (Str (pre @ ''::ffff:'' @ lit))"
    and "indexOf (pre @ ''::ffff:'' @ lit) ''::ffff:'' = int (length pre)"
    and "CHR '':'' \<notin> set lit"
  shows "strip_v6 L (Str (pre @ ''::ffff:'' @ lit)) = Inr (Str lit)"
proof -
  define m where "m = ''::ffff:''"
  have idx: "indexOf (pre @ m @ lit) m = int (length pre)"
    using assms(2) by (simp add: m_def)
  have mne: "m \<noteq> []" by (simp add: m_def)
  have "CHR '':'' \<in> set m" by (simp add: m_def)
  then have "indexOf lit m = - 1" using assms(3) by (rule indexOf_absent)
  with mne have rest: "str_split m lit = [lit]" by (rule str_split_absent)
  have sp: "str_split m (pre @ m @ lit) = [pre, lit]"
    using str_split_at [OF mne idx] rest by simp
  have short: "indexOf (pre @ m @ lit) ''::ffff'' \<noteq> - 1"
  proof (rule indexOf_longer [where b = "'':''"])
    show "indexOf (pre @ m @ lit) (''::ffff'' @ '':'') \<noteq> - 1"
      using idx by (simp add: m_def)
  qed
  show ?thesis using assms(1) short sp
    by (simp add: strip_v6_def at_index_def m_def)
qed

lemma normalizeIp_mapped:
  assumes "isV6Format L (Str (pre @ ''::ffff:'' @ lit))"
    and "indexOf (pre @ ''::ffff:'' @ lit) ''::ffff:'' = int (length pre)"
    and "CHR '':'' \<notin> set lit"
  shows "normalizeIp L (Str (pre @ ''::ffff:'' @ lit)) = Inr (Str lit)"
  using strip_v6_mapped [OF assms] strip_port_no_colon [OF assms(3)]
  by (simp add: normalizeIp_def)

lemma getClientIp_pointwise:
  assumes "getClientIp L S r = Inr out"
  shows "length out = length (rawAddresses S r)
       \<and> (\<forall>i<length out. normalizeIp L (rawAddresses S r ! i) = Inr (out ! i))"
proof -
  have "mapE (normalizeIp L) (rawAddresses S r) = Inr out"
    using assms by (auto simp: getClientIp_def Let_def split: if_splits)
  then have "list_all2 (\<lambda>x y. normalizeIp L x = Inr y) (rawAddresses S r) out"
    by (simp add: mapE_Inr)
  then show ?thesis by (auto simp: list_all2_conv_all_nth)
qed

lemma normalizeIp_mapped_example:
  "isV6Format L (Str ''::ffff:127.0.0.1'') \<Longrightarrow>
   normalizeIp L (Str ''::ffff:127.0.0.1'') = Inr (Str ''127.0.0.1'')"
  using normalizeIp_mapped [of L "[]" "''127.0.0.1''"] by simp

text \<open>
  The second step tests \<^verbatim>\<open>iputil.isV4Format(ipAddress)\<close> before it looks for a colon.
  With a format test that rejects every string with a colon it changes nothing.
\<close>

lemma strip_port_dead:
  assumes "\<And>t. CHR '':'' \<in> set t \<Longrightarrow> \<not> isV4Format L (Str t)"
  shows "strip_port L (Str s) = Inr (Str s)"
proof (cases "CHR '':'' \<in> set s")
  case True
  then have "\<not> isV4Format L (Str s)" by (rule assms)
  then show ?thesis by (simp add: strip_port_def)
next
  case False
  then show ?thesis by (rule strip_port_no_colon)
qed

text \<open>
  Claim C6 says that an IPv4-formatted address with a colon is cut before the colon,
  so that \<^verbatim>\<open>127.0.0.1:54321\<close> becomes \<^verbatim>\<open>127.0.0.1\<close>. The source guards the cut by
  \<^verbatim>\<open>iputil.isV4Format(ipAddress)\<close>, the test for four octets, which answers false for
  a string with a port: the address keeps its port, and a request from
  \<^verbatim>\<open>127.0.0.1:54321\<close> is denied under the allow list \<^verbatim>\<open>['127.0.0.1']\<close>. The other parts
  of the claim hold (\<open>normalizeIp_mapped\<close>, \<open>getClientIp_pointwise\<close>).
\<close>

theorem port_suffix_is_kept:
  "\<not> isV4Format sample_lib (Str ''127.0.0.1:54321'')
   \<and> normalizeIp sample_lib (Str ''127.0.0.1:54321'') = Inr (Str ''127.0.0.1:54321'')
   \<and> detect sample_lib (plain_settings ''allow'') (peer_request ''127.0.0.1:54321'' ''/'')
       = Inr [Str ''127.0.0.1:54321'']
   \<and> fst (ipfilter sample_lib (plain_settings ''allow'') (static_ips [CStr ''127.0.0.1''])
            (peer_request ''127.0.0.1:54321'' ''/'') 0)
       = Denied ''Access denied to IP address: 127.0.0.1:54321''"
  by (simp add: model_defs sample_defs)

subsection \<open>Sequences with exceptions\<close>

lemma error_unique: "(e :: error) = TypeError"
  by (cases e) simp

lemma mapE_Inl: "(mapE g xs = Inl e) = (\<exists>x\<in>set xs. g x = Inl e)"
proof (induction xs)
  case Nil
  show ?case by simp
next
  case (Cons x xs)
  show ?case
  proof (cases "g x")
    case (Inl e')
    then show ?thesis using error_unique [of e] error_unique [of e'] by auto
  next
    case gx: (Inr y)
    show ?thesis
    proof (cases "mapE g xs")
      case (Inl e')
      then show ?thesis using gx Cons.IH error_unique [of e] error_unique [of e'] by auto
    next
      case (Inr ys)
      then show ?thesis using gx Cons.IH by auto
    qed
  qed
qed

lemma mapE_some: "mapE g xs = Inr rs \<Longrightarrow> some rs = (\<exists>x\<in>set xs. g x = Inr True)"
proof (induction xs arbitrary: rs)
  case Nil
  then show ?case by (auto simp: some_def)
next
  case (Cons x xs)
  from Cons.prems obtain y ys where gx: "g x = Inr y" and m: "mapE g xs = Inr ys"
    and rs: "rs = y # ys"
    by (auto split: sum.splits)
  from Cons.IH [OF m] gx rs show ?case by (auto simp: some_def)
qed

lemma mapE_every: "mapE g xs = Inr rs \<Longrightarrow> every rs = (\<forall>x\<in>set xs. g x = Inr True)"
proof (induction xs arbitrary: rs)
  case Nil
  then show ?case by (auto simp: every_def)
next
  case (Cons x xs)
  from Cons.prems obtain y ys where gx: "g x = Inr y" and m: "mapE g xs = Inr ys"
    and rs: "rs = y # ys"
    by (auto split: sum.splits)
  from Cons.IH [OF m] gx rs show ?case by (auto simp: every_def)
qed

lemma filterE_total:
  "\<forall>x\<in>set xs. p x = Inr (q x) \<Longrightarrow> filterE p xs = Inr (filter q xs)"
  by (induction xs) simp_all

subsection \<open>Threading the call counter\<close>

lemma mapS_fst:
  assumes "\<And>x n. fst (f x n) = g x"
  shows "fst (mapS f xs n) = mapE g xs"
proof (induction xs arbitrary: n)
  case Nil
  show ?case by simp
next
  case (Cons x xs)
  obtain a n1 where fx: "f x n = (a, n1)" by (cases "f x n")
  then have a: "g x = a" using assms [of x n] by simp
  show ?case
  proof (cases a)
    case (Inl e)
    then show ?thesis using fx a by simp
  next
    case (Inr y)
    obtain b n2 where fxs: "mapS f xs n1 = (b, n2)" by (cases "mapS f xs n1")
    then have "mapE g xs = b" using Cons.IH [of n1] by simp
    then show ?thesis using fx fxs a Inr by (cases b) simp_all
  qed
qed

lemma mapS_snd:
  assumes "\<And>x n y. fst (f x n) = Inr y \<Longrightarrow> snd (f x n) = n + cost x"
    and "fst (mapS f xs n) = Inr rs"
  shows "snd (mapS f xs n) = n + sum_list (map cost xs)"
  using assms(2)
proof (induction xs arbitrary: n rs)
  case Nil
  show ?case by simp
next
  case (Cons x xs)
  obtain a n1 where fx: "f x n = (a, n1)" by (cases "f x n")
  obtain b n2 where fxs: "mapS f xs n1 = (b, n2)" by (cases "mapS f xs n1")
  from Cons.prems fx fxs obtain y ys where a: "a = Inr y" and b: "b = Inr ys"
    by (cases a; cases b) simp_all
  have "n1 = n + cost x" using assms(1) [of x n y] fx a by simp
  moreover have "n2 = n1 + sum_list (map cost xs)" using Cons.IH [of n1 ys] fxs b by simp
  ultimately show ?case using fx fxs a b by simp
qed

text \<open>With a constant source the answer of a test does not depend on the counter.\<close>

lemma testIp_static_fst:
  "fst (testIp L (static_ips R) c ip m n) = fst (testIp L (static_ips R) c ip m k)"
  by (cases c) (simp_all add: testRange_def static_ips_def split: sum.splits)

lemma testIp_snd:
  "snd (testIp L getIps c ip m n) = n + (if is_array c then 1 else 0)"
  by (cases c) (simp_all add: testRange_def split: sum.splits)

lemma sum_list_is_array:
  "sum_list (map (\<lambda>c. if is_array c then 1 else 0) R) = length (filter is_array R)"
  by (induction R) simp_all

lemma matchClientIp_static_fst:
  "fst (matchClientIp L S (static_ips R) ip n) =
     (case mapE (\<lambda>c. fst (testIp L (static_ips R) c ip (toLowerCase (mode S)) k)) R of
        Inl e \<Rightarrow> Inl e
      | Inr result \<Rightarrow>
          Inr (if toLowerCase (mode S) = ''allow'' then some result else every result))"
proof -
  let ?m = "toLowerCase (mode S)"
  obtain a n1 where e: "mapS (\<lambda>c. testIp L (static_ips R) c ip ?m) R (Suc n) = (a, n1)"
    by (cases "mapS (\<lambda>c. testIp L (static_ips R) c ip ?m) R (Suc n)")
  have "fst (mapS (\<lambda>c. testIp L (static_ips R) c ip ?m) R (Suc n))
          = mapE (\<lambda>c. fst (testIp L (static_ips R) c ip ?m k)) R"
    by (rule mapS_fst) (rule testIp_static_fst)
  with e have a: "mapE (\<lambda>c. fst (testIp L (static_ips R) c ip ?m k)) R = a" by simp
  have R: "static_ips R n = R" by (simp add: static_ips_def)
  show ?thesis using e R
    by (cases a) (simp_all add: matchClientIp_def Let_def a)
qed

lemma matchClientIp_static_snd:
  assumes "fst (matchClientIp L S (static_ips R) ip n) = Inr b"
  shows "snd (matchClientIp L S (static_ips R) ip n) = n + (1 + length (filter is_array R))"
proof -
  let ?m = "toLowerCase (mode S)"
  obtain a n1 where e: "mapS (\<lambda>c. testIp L (static_ips R) c ip ?m) R (Suc n) = (a, n1)"
    by (cases "mapS (\<lambda>c. testIp L (static_ips R) c ip ?m) R (Suc n)")
  have R: "static_ips R n = R" by (simp add: static_ips_def)
  from assms e R obtain rs where a: "a = Inr rs"
    by (cases a) (simp_all add: matchClientIp_def Let_def)
  have "snd (mapS (\<lambda>c. testIp L (static_ips R) c ip ?m) R (Suc n))
          = Suc n + sum_list (map (\<lambda>c. if is_array c then 1 else 0) R)"
  proof (rule mapS_snd)
    show "fst (mapS (\<lambda>c. testIp L (static_ips R) c ip ?m) R (Suc n)) = Inr rs"
      using e a by simp
  qed (rule testIp_snd)
  then show ?thesis using e a R
    by (simp add: matchClientIp_def Let_def sum_list_is_array)
qed

lemma ipfilter_static_fst:
  assumes "\<not> excluded L S r" "R \<noteq> []" "detect L S r = Inr ips"
  shows "(fst (ipfilter L S (static_ips R) r n) = Proceed)
           = (\<forall>ip\<in>set ips. fst (matchClientIp L S (static_ips R) ip k) = Inr True)"
proof -
  let ?g = "\<lambda>ip. fst (matchClientIp L S (static_ips R) ip k)"
  obtain a n2 where e: "mapS (matchClientIp L S (static_ips R)) ips (Suc n) = (a, n2)"
    by (cases "mapS (matchClientIp L S (static_ips R)) ips (Suc n)")
  have "fst (mapS (matchClientIp L S (static_ips R)) ips (Suc n)) = mapE ?g ips"
    by (rule mapS_fst) (simp add: matchClientIp_static_fst [where k = 0])
  with e have a: "mapE ?g ips = a" by simp
  have R: "static_ips R n = R" by (simp add: static_ips_def)
  show ?thesis
  proof (cases a)
    case (Inl err)
    then have "\<exists>ip\<in>set ips. ?g ip = Inl err" using a by (simp add: mapE_Inl)
    then have "\<not> (\<forall>ip\<in>set ips. ?g ip = Inr True)" by fastforce
    moreover have "fst (ipfilter L S (static_ips R) r n) = Thrown err"
      using assms e R Inl by (simp add: ipfilter_def Let_def)
    ultimately show ?thesis by simp
  next
    case (Inr rs)
    then have "every rs = (\<forall>ip\<in>set ips. ?g ip = Inr True)"
      using a by (intro mapE_every) simp
    moreover have "fst (ipfilter L S (static_ips R) r n)
                     = (if every rs then Proceed else error ips)"
      using assms e R Inr by (simp add: ipfilter_def Let_def)
    ultimately show ?thesis by (simp add: error_def)
  qed
qed

lemma ipfilter_static_snd:
  assumes "\<forall>e. fst (ipfilter L S (static_ips R) r n) \<noteq> Thrown e"
  shows "snd (ipfilter L S (static_ips R) r n) =
     (if excluded L S r then n
      else if R = [] then n + 1
      else (case detect L S r of
              Inl e \<Rightarrow> n + 1
            | Inr ips \<Rightarrow> n + 1 + length ips * (1 + length (filter is_array R))))"
proof -
  have s: "\<And>(ips::jsval list) c::nat. sum_list (map (\<lambda>ip. c) ips) = length ips * c"
    by (simp add: sum_list_triv)
  have R: "static_ips R n = R" by (simp add: static_ips_def)
  show ?thesis
  proof (cases "detect L S r")
    case (Inl e)
    then show ?thesis using R by (simp add: ipfilter_def Let_def)
  next
    case (Inr ips)
    obtain a n2 where e: "mapS (matchClientIp L S (static_ips R)) ips (Suc n) = (a, n2)"
      by (cases "mapS (matchClientIp L S (static_ips R)) ips (Suc n)")
    show ?thesis
    proof (cases "excluded L S r \<or> R = []")
      case True
      then show ?thesis using R by (auto simp: ipfilter_def Let_def)
    next
      case False
      then obtain rs where a: "a = Inr rs"
        using assms Inr e R by (cases a) (auto simp: ipfilter_def Let_def)
      have "snd (mapS (matchClientIp L S (static_ips R)) ips (Suc n))
              = Suc n + sum_list (map (\<lambda>ip. 1 + length (filter is_array R)) ips)"
      proof (rule mapS_snd)
        show "fst (mapS (matchClientIp L S (static_ips R)) ips (Suc n)) = Inr rs"
          using e a by simp
      qed (rule matchClientIp_static_snd)
      then have "n2 = Suc n + length ips * (1 + length (filter is_array R))"
        using e by (simp add: s)
      then show ?thesis using False Inr e a R
        by (simp add: ipfilter_def Let_def)
    qed
  qed
qed


subsection \<open>The decision\<close>

text \<open>
  Claim C1, as amended: for a request whose path matches no exclusion pattern, a
  non-empty rule set and the candidate addresses the resolver returns, the verdict is
  Proceed if and only if every candidate passes \<open>matchClientIp\<close> on its own; the
  aggregation is a conjunction whatever the mode. A candidate whose evaluation throws
  does not pass, and the verdict is then not Proceed.
\<close>

theorem verdict_is_conjunction_over_candidates:
  assumes "\<not> excluded L S r" and "R \<noteq> []" and "detect L S r = Inr ips"
  shows "(fst (ipfilter L S (static_ips R) r n) = Proceed)
           = (\<forall>ip\<in>set ips. fst (matchClientIp L S (static_ips R) ip k) = Inr True)"
  using assms by (rule ipfilter_static_fst)

theorem verdict_is_conjunction_over_candidates_witness:
  "\<not> excluded sample_lib (forwarded_settings ''Allow'') (forwarded_request ''127.0.0.1,8.8.8.8'')
   \<and> [CStr ''127.0.0.1''] \<noteq> []
   \<and> detect sample_lib (forwarded_settings ''Allow'') (forwarded_request ''127.0.0.1,8.8.8.8'')
       = Inr [Str ''127.0.0.1'', Str ''8.8.8.8'']
   \<and> fst (matchClientIp sample_lib (forwarded_settings ''Allow'')
            (static_ips [CStr ''127.0.0.1'']) (Str ''127.0.0.1'') 0) = Inr True
   \<and> fst (matchClientIp sample_lib (forwarded_settings ''Allow'')
            (static_ips [CStr ''127.0.0.1'']) (Str ''8.8.8.8'') 0) = Inr False
   \<and> fst (ipfilter sample_lib (forwarded_settings ''Allow'') (static_ips [CStr ''127.0.0.1''])
            (forwarded_request ''127.0.0.1,8.8.8.8'') 0) \<noteq> Proceed"
proof -
  let ?S = "forwarded_settings ''Allow''"
  let ?r = "forwarded_request ''127.0.0.1,8.8.8.8''"
  let ?R = "[CStr ''127.0.0.1'']"
  have h1: "\<not> excluded sample_lib ?S ?r"
    by (simp add: excluded_def forwarded_settings_def)
  have h2: "?R \<noteq> []" by simp
  have h3: "detect sample_lib ?S ?r = Inr [Str ''127.0.0.1'', Str ''8.8.8.8'']"
    by (simp add: model_defs sample_defs)
  have m1: "fst (matchClientIp sample_lib ?S (static_ips ?R) (Str ''127.0.0.1'') 0) = Inr True"
    by (simp add: model_defs sample_defs)
  have m2: "fst (matchClientIp sample_lib ?S (static_ips ?R) (Str ''8.8.8.8'') 0) = Inr False"
    by (simp add: model_defs sample_defs)
  have "fst (ipfilter sample_lib ?S (static_ips ?R) ?r 0) \<noteq> Proceed"
    using verdict_is_conjunction_over_candidates [OF h1 h2 h3, of 0 0] m2 by simp
  with h1 h2 h3 m1 m2 show ?thesis by blast
qed

text \<open>
  The claim as first stated has no condition on the path. On an excluded path the
  verdict is Proceed although the only candidate fails.
\<close>

theorem verdict_on_excluded_path_counterexample:
  "detect sample_lib ((plain_settings ''allow'')\<lparr>excluding := [''/health'']\<rparr>)
      (peer_request ''8.8.8.8'' ''/health'') = Inr [Str ''8.8.8.8'']
   \<and> fst (matchClientIp sample_lib ((plain_settings ''allow'')\<lparr>excluding := [''/health'']\<rparr>)
            (static_ips [CStr ''127.0.0.1'']) (Str ''8.8.8.8'') 0) = Inr False
   \<and> fst (ipfilter sample_lib ((plain_settings ''allow'')\<lparr>excluding := [''/health'']\<rparr>)
            (static_ips [CStr ''127.0.0.1'']) (peer_request ''8.8.8.8'' ''/health'') 0) = Proceed"
  by (simp add: model_defs sample_defs)

text \<open>The example of the claim: one of two forwarded addresses is not on the allow list.\<close>

lemma two_forwarded_addresses_denied:
  "fst (ipfilter sample_lib (forwarded_settings ''Allow'') (static_ips [CStr ''127.0.0.1''])
          (forwarded_request ''127.0.0.1,8.8.8.8'') 0)
     = Denied ''Access denied to IP address: 127.0.0.1,8.8.8.8''"
  by (simp add: model_defs sample_defs)

text \<open>
  Claim C2: for one candidate address and a rule set, \<open>matchClientIp\<close> is the
  disjunction of the per-rule tests under mode allow and their conjunction under mode
  deny. When the test of some rule throws, \<open>matchClientIp\<close> throws.
\<close>

theorem matchClientIp_combines_by_mode:
  "(toLowerCase (mode S) = ''allow'' \<longrightarrow>
      fst (matchClientIp L S (static_ips R) ip n)
        = (if \<exists>c\<in>set R. fst (testIp L (static_ips R) c ip ''allow'' k) = Inl TypeError
           then Inl TypeError
           else Inr (\<exists>c\<in>set R. fst (testIp L (static_ips R) c ip ''allow'' k) = Inr True)))
   \<and> (toLowerCase (mode S) = ''deny'' \<longrightarrow>
      fst (matchClientIp L S (static_ips R) ip n)
        = (if \<exists>c\<in>set R. fst (testIp L (static_ips R) c ip ''deny'' k) = Inl TypeError
           then Inl TypeError
           else Inr (\<forall>c\<in>set R. fst (testIp L (static_ips R) c ip ''deny'' k) = Inr True)))"
proof -
  let ?g = "\<lambda>c. fst (testIp L (static_ips R) c ip (toLowerCase (mode S)) k)"
  have thrown: "(\<exists>c\<in>set R. ?g c = Inl TypeError) = (mapE ?g R = Inl TypeError)"
    by (simp add: mapE_Inl)
  show ?thesis
  proof (cases "mapE ?g R")
    case (Inl e)
    then have "mapE ?g R = Inl TypeError" using error_unique [of e] by simp
    then show ?thesis
      using matchClientIp_static_fst [of L S R ip n k] thrown by auto
  next
    case (Inr rs)
    then have no: "\<not> (\<exists>c\<in>set R. ?g c = Inl TypeError)" using thrown by simp
    have "some rs = (\<exists>c\<in>set R. ?g c = Inr True)" using Inr by (rule mapE_some)
    moreover have "every rs = (\<forall>c\<in>set R. ?g c = Inr True)" using Inr by (rule mapE_every)
    ultimately show ?thesis
      using matchClientIp_static_fst [of L S R ip n k] Inr no by auto
  qed
qed

theorem matchClientIp_combines_by_mode_witness:
  "toLowerCase (mode (plain_settings ''Allow'')) = ''allow''
   \<and> fst (matchClientIp sample_lib (plain_settings ''Allow'')
            (static_ips [CStr ''127.0.0.1'', CStr ''10.0.0.0/24'']) (Str ''10.0.0.5'') 0)
       = (if \<exists>c\<in>set [CStr ''127.0.0.1'', CStr ''10.0.0.0/24''].
               fst (testIp sample_lib (static_ips [CStr ''127.0.0.1'', CStr ''10.0.0.0/24''])
                      c (Str ''10.0.0.5'') ''allow'' 0) = Inl TypeError
          then Inl TypeError
          else Inr (\<exists>c\<in>set [CStr ''127.0.0.1'', CStr ''10.0.0.0/24''].
               fst (testIp sample_lib (static_ips [CStr ''127.0.0.1'', CStr ''10.0.0.0/24''])
                      c (Str ''10.0.0.5'') ''allow'' 0) = Inr True))
   \<and> fst (matchClientIp sample_lib (plain_settings ''Allow'')
            (static_ips [CStr ''127.0.0.1'', CStr ''10.0.0.0/24'']) (Str ''10.0.0.5'') 0)
       = Inr True
   \<and> toLowerCase (mode (plain_settings ''deny'')) = ''deny''
   \<and> fst (matchClientIp sample_lib (plain_settings ''deny'')
            (static_ips [CStr ''127.0.0.1'', CStr ''10.0.0.0/24'']) (Str ''10.0.0.5'') 0)
       = (if \<exists>c\<in>set [CStr ''127.0.0.1'', CStr ''10.0.0.0/24''].
               fst (testIp sample_lib (static_ips [CStr ''127.0.0.1'', CStr ''10.0.0.0/24''])
                      c (Str ''10.0.0.5'') ''deny'' 0) = Inl TypeError
          then Inl TypeError
          else Inr (\<forall>c\<in>set [CStr ''127.0.0.1'', CStr ''10.0.0.0/24''].
               fst (testIp sample_lib (static_ips [CStr ''127.0.0.1'', CStr ''10.0.0.0/24''])
                      c (Str ''10.0.0.5'') ''deny'' 0) = Inr True))
   \<and> fst (matchClientIp sample_lib (plain_settings ''deny'')
            (static_ips [CStr ''127.0.0.1'', CStr ''10.0.0.0/24'']) (Str ''10.0.0.5'') 0)
       = Inr False"
proof -
  have a: "toLowerCase (mode (plain_settings ''Allow'')) = ''allow''"
    by (simp add: plain_settings_def toLowerCase_def lower_char_def)
  have d: "toLowerCase (mode (plain_settings ''deny'')) = ''deny''"
    by (simp add: plain_settings_def toLowerCase_def lower_char_def)
  have va: "fst (matchClientIp sample_lib (plain_settings ''Allow'')
            (static_ips [CStr ''127.0.0.1'', CStr ''10.0.0.0/24'']) (Str ''10.0.0.5'') 0)
       = Inr True"
    by (simp add: model_defs sample_defs)
  have vd: "fst (matchClientIp sample_lib (plain_settings ''deny'')
            (static_ips [CStr ''127.0.0.1'', CStr ''10.0.0.0/24'']) (Str ''10.0.0.5'') 0)
       = Inr False"
    by (simp add: model_defs sample_defs)
  show ?thesis
    using a d va vd
      matchClientIp_combines_by_mode [of "plain_settings ''Allow''" sample_lib
        "[CStr ''127.0.0.1'', CStr ''10.0.0.0/24'']" "Str ''10.0.0.5''" 0 0]
      matchClientIp_combines_by_mode [of "plain_settings ''deny''" sample_lib
        "[CStr ''127.0.0.1'', CStr ''10.0.0.0/24'']" "Str ''10.0.0.5''" 0 0]
    by blast
qed

text \<open>
  Claim C3: for a string token and either mode, the test of the token answers
  (match = (mode is allow)), where match is membership in the block when the token is
  valid CIDR notation and equality with the token otherwise.
\<close>

theorem testIp_string_token:
  "m = ''allow'' \<or> m = ''deny'' \<Longrightarrow>
   fst (testIp L getIps (CStr c) ip m n)
     = Inr ((if validRange L c then inRange L ip c else ip = Str c) = (m = ''allow''))"
  by (auto simp: testCidrBlock_def testExplicitIp_def)

theorem testIp_string_token_witness:
  "(''deny'' = ''allow'' \<or> ''deny'' = ''deny'')
   \<and> validRange sample_lib ''10.0.0.0/24''
   \<and> inRange sample_lib (Str ''10.0.0.5'') ''10.0.0.0/24''
   \<and> fst (testIp sample_lib (static_ips []) (CStr ''10.0.0.0/24'') (Str ''10.0.0.5'') ''deny'' 0)
       = Inr ((if validRange sample_lib ''10.0.0.0/24''
               then inRange sample_lib (Str ''10.0.0.5'') ''10.0.0.0/24''
               else Str ''10.0.0.5'' = Str ''10.0.0.0/24'') = (''deny'' = ''allow''))"
proof -
  have h: "''deny'' = ''allow'' \<or> ''deny'' = ''deny''" by simp
  have v: "validRange sample_lib ''10.0.0.0/24''" by (simp add: sample_defs)
  have i: "inRange sample_lib (Str ''10.0.0.5'') ''10.0.0.0/24''" by (simp add: sample_defs)
  show ?thesis
    using h v i testIp_string_token [OF h, of sample_lib "static_ips []" "''10.0.0.0/24''"
                   "Str ''10.0.0.5''" 0]
    by blast
qed


text \<open>
  Claim C7: on a path that matches no exclusion pattern, when the rule set obtained
  for the decision is empty, mode allow denies with the address list
  \<^verbatim>\<open>['0.0.0.0/0']\<close> and mode deny proceeds, whatever the request's addresses.
\<close>

theorem empty_rule_set_policy:
  assumes "\<not> excluded L S r" and "getIps n = []"
  shows "(mode S = ''allow'' \<longrightarrow> fst (ipfilter L S getIps r n) = error [Str ''0.0.0.0/0''])
       \<and> (mode S = ''deny'' \<longrightarrow> fst (ipfilter L S getIps r n) = Proceed)"
  using assms by (simp add: ipfilter_def)

theorem empty_rule_set_policy_witness:
  "\<not> excluded sample_lib (plain_settings ''allow'') (peer_request ''8.8.8.8'' ''/'')
   \<and> static_ips [] 0 = []
   \<and> mode (plain_settings ''allow'') = ''allow''
   \<and> fst (ipfilter sample_lib (plain_settings ''allow'') (static_ips [])
            (peer_request ''8.8.8.8'' ''/'') 0) = Denied ''Access denied to IP address: 0.0.0.0/0''
   \<and> \<not> excluded sample_lib (plain_settings ''deny'') (peer_request ''8.8.8.8'' ''/'')
   \<and> mode (plain_settings ''deny'') = ''deny''
   \<and> fst (ipfilter sample_lib (plain_settings ''deny'') (static_ips [])
            (peer_request ''8.8.8.8'' ''/'') 0) = Proceed"
proof -
  let ?r = "peer_request ''8.8.8.8'' ''/''"
  have xa: "\<not> excluded sample_lib (plain_settings ''allow'') ?r"
    by (simp add: excluded_def plain_settings_def)
  have xd: "\<not> excluded sample_lib (plain_settings ''deny'') ?r"
    by (simp add: excluded_def plain_settings_def)
  have e: "static_ips [] 0 = []" by (simp add: static_ips_def)
  have ma: "mode (plain_settings ''allow'') = ''allow''" by (simp add: plain_settings_def)
  have md: "mode (plain_settings ''deny'') = ''deny''" by (simp add: plain_settings_def)
  have msg: "error [Str ''0.0.0.0/0''] = Denied ''Access denied to IP address: 0.0.0.0/0''"
    by (simp add: error_def)
  show ?thesis
    using xa xd e ma md msg
      empty_rule_set_policy [where getIps = "static_ips []" and n = 0, OF xa e]
      empty_rule_set_policy [where getIps = "static_ips []" and n = 0, OF xd e]
    by simp
qed

text \<open>
  Claim C10: on a path that matches no exclusion pattern, with a non-empty rule set,
  a resolver that returns no candidate address gives Proceed, whatever the mode and
  the rules.
\<close>

theorem no_candidates_proceed:
  assumes "\<not> excluded L S r" and "getIps n \<noteq> []" and "detect L S r = Inr []"
  shows "fst (ipfilter L S getIps r n) = Proceed"
  using assms by (simp add: ipfilter_def every_def)

theorem no_candidates_proceed_witness:
  "\<not> excluded sample_lib ((plain_settings ''allow'')\<lparr>detectIp := Some (\<lambda>r. [])\<rparr>)
        (peer_request ''8.8.8.8'' ''/'')
   \<and> static_ips [CStr ''127.0.0.1''] 0 \<noteq> []
   \<and> detect sample_lib ((plain_settings ''allow'')\<lparr>detectIp := Some (\<lambda>r. [])\<rparr>)
        (peer_request ''8.8.8.8'' ''/'') = Inr []
   \<and> fst (ipfilter sample_lib ((plain_settings ''allow'')\<lparr>detectIp := Some (\<lambda>r. [])\<rparr>)
            (static_ips [CStr ''127.0.0.1'']) (peer_request ''8.8.8.8'' ''/'') 0) = Proceed"
proof -
  let ?S = "(plain_settings ''allow'')\<lparr>detectIp := Some (\<lambda>r. [])\<rparr>"
  let ?r = "peer_request ''8.8.8.8'' ''/''"
  have h1: "\<not> excluded sample_lib ?S ?r" by (simp add: excluded_def plain_settings_def)
  have h2: "static_ips [CStr ''127.0.0.1''] 0 \<noteq> []" by (simp add: static_ips_def)
  have h3: "detect sample_lib ?S ?r = Inr []" by (simp add: detect_def plain_settings_def)
  show ?thesis using h1 h2 h3
      no_candidates_proceed [where getIps = "static_ips [CStr ''127.0.0.1'']" and n = 0, OF h1 h2 h3]
    by simp
qed

text \<open>
  Claim C9, as amended: with a rule source that answers the same rule set at every
  call, a decision that ends with a verdict (no exception is thrown) calls it not at
  all on an excluded path, once when the rule set is empty, and otherwise once, then
  once more for every candidate address, and once more for every candidate and every
  array-shaped token.
\<close>

theorem getIps_call_count:
  assumes "\<forall>e. fst (ipfilter L S (static_ips R) r n) \<noteq> Thrown e"
  shows "snd (ipfilter L S (static_ips R) r n) =
     (if excluded L S r then n
      else if R = [] then n + 1
      else (case detect L S r of
              Inl e \<Rightarrow> n + 1
            | Inr ips \<Rightarrow> n + 1 + length ips * (1 + length (filter is_array R))))"
  using assms by (rule ipfilter_static_snd)

theorem getIps_call_count_witness:
  "fst (ipfilter sample_lib (forwarded_settings ''allow'')
          (static_ips [CStr ''127.0.0.1'', CArr [''10.0.0.1'', ''10.0.0.10'']])
          (forwarded_request ''10.0.0.5,127.0.0.1'') 0) = Proceed
   \<and> detect sample_lib (forwarded_settings ''allow'') (forwarded_request ''10.0.0.5,127.0.0.1'')
       = Inr [Str ''10.0.0.5'', Str ''127.0.0.1'']
   \<and> snd (ipfilter sample_lib (forwarded_settings ''allow'')
          (static_ips [CStr ''127.0.0.1'', CArr [''10.0.0.1'', ''10.0.0.10'']])
          (forwarded_request ''10.0.0.5,127.0.0.1'') 0) = 5"
proof -
  let ?S = "forwarded_settings ''allow''"
  let ?R = "[CStr ''127.0.0.1'', CArr [''10.0.0.1'', ''10.0.0.10'']]"
  let ?r = "forwarded_request ''10.0.0.5,127.0.0.1''"
  have v: "fst (ipfilter sample_lib ?S (static_ips ?R) ?r 0) = Proceed"
    by (simp add: model_defs sample_defs word_le_nat_alt)
  then have h: "\<forall>e. fst (ipfilter sample_lib ?S (static_ips ?R) ?r 0) \<noteq> Thrown e" by simp
  have x: "\<not> excluded sample_lib ?S ?r" by (simp add: excluded_def forwarded_settings_def)
  have d: "detect sample_lib ?S ?r = Inr [Str ''10.0.0.5'', Str ''127.0.0.1'']"
    by (simp add: model_defs sample_defs)
  have "snd (ipfilter sample_lib ?S (static_ips ?R) ?r 0) = 5"
    using getIps_call_count [OF h] x d by simp
  with v d show ?thesis by blast
qed

text \<open>
  The claim as first stated says one call. One exact-address rule and one candidate
  already give two calls.
\<close>

theorem getIps_called_twice_counterexample:
  "snd (ipfilter sample_lib (plain_settings ''allow'') (static_ips [CStr ''127.0.0.1''])
          (peer_request ''127.0.0.1'' ''/'') 0) = 2
   \<and> snd (ipfilter sample_lib (plain_settings ''allow'') (static_ips [CStr ''127.0.0.1''])
          (peer_request ''127.0.0.1'' ''/'') 0) \<noteq> 1"
  by (simp add: model_defs sample_defs)

text \<open>
  When the peer address is \<^verbatim>\<open>undefined\<close> and the rules hold a range, the third call
  is followed by the exception of \<^verbatim>\<open>toLong\<close>, and no further call is made.
\<close>

lemma undefined_candidate_throws:
  "ipfilter sample_lib (plain_settings ''allow'')
     (static_ips [CArr [''10.0.0.1'', ''10.0.0.10''], CArr [''10.0.1.1'', ''10.0.1.10'']])
     \<lparr> headers = Map.empty, remoteAddress = Undefined, url = ''/'' \<rparr> 0
   = (Thrown TypeError, 3)"
  by (simp add: model_defs sample_defs)

text \<open>A forwarded value that holds \<^verbatim>\<open>::ffff\<close> without the full marker gives \<^verbatim>\<open>undefined\<close>.\<close>

lemma short_marker_gives_undefined:
  "getClientIp sample_lib (forwarded_settings ''allow'') (forwarded_request ''::ffff'')
     = Inr [Undefined]"
  by (simp add: model_defs sample_defs)

text \<open>
  Claim C8 says the mode is read without regard to letter case, also when the rule
  set is empty. \<open>matchClientIp\<close> lowers the mode; the branch for the empty rule set
  compares \<^verbatim>\<open>settings.mode\<close> as it was given. With no rules, mode \<^verbatim>\<open>'ALLOW'\<close> proceeds
  where mode \<^verbatim>\<open>'allow'\<close> denies.
\<close>

theorem mode_case_with_empty_rule_set:
  "toLowerCase ''ALLOW'' = ''allow''
   \<and> fst (ipfilter sample_lib (plain_settings ''ALLOW'') (static_ips [])
            (peer_request ''8.8.8.8'' ''/'') 0) = Proceed
   \<and> fst (ipfilter sample_lib (plain_settings ''allow'') (static_ips [])
            (peer_request ''8.8.8.8'' ''/'') 0) = Denied ''Access denied to IP address: 0.0.0.0/0''"
  by (simp add: model_defs sample_defs)

text \<open>With a non-empty rule set the verdict depends on the mode through its lower case only.\<close>

lemma matchClientIp_mode_case:
  "toLowerCase (mode S) = toLowerCase (mode S') \<Longrightarrow>
   matchClientIp L S getIps ip n = matchClientIp L S' getIps ip n"
  by (simp add: matchClientIp_def)

subsection \<open>Range tokens\<close>

text \<open>On range-shaped tokens the filter of \<open>testRange\<close> is the specification's match.\<close>

lemma rangeFilter_range_token:
  "is_range_token c \<Longrightarrow> rangeFilter L (Str a) c = Inr (spec_token_matches L a c)"
  by (induction c rule: is_range_token.induct)
     (auto simp: rangeFilter_def toLongOf_def at_index_def)

lemma testRange_range_tokens_only:
  assumes "list_all is_range_token R" and "m = ''allow'' \<or> m = ''deny''"
  shows "fst (testRange L (static_ips R) (Str a) c m n)
           = Inr (spec_range_member L a R = (m = ''allow''))"
proof -
  have "\<forall>t\<in>set R. rangeFilter L (Str a) t = Inr (spec_token_matches L a t)"
    using assms(1) by (simp add: list_all_iff rangeFilter_range_token)
  then have "filterE (rangeFilter L (Str a)) R = Inr (filter (spec_token_matches L a) R)"
    by (rule filterE_total)
  moreover have "(filter (spec_token_matches L a) R \<noteq> []) = spec_range_member L a R"
    by (auto simp: spec_range_member_def list_ex_iff filter_empty_conv)
  ultimately show ?thesis using assms(2)
    by (auto simp: testRange_def static_ips_def)
qed

text \<open>
  Claim C4 says a candidate is a member of the ranges when some range-shaped token
  matches it. The filter of \<open>testRange\<close> runs over every token of the rule set, the
  strings too, and reads the first two characters of a string as the bounds: the
  string \<^verbatim>\<open>'127.0.0.1'\<close> counts as the range from 1 to 2. With the rules
  \<^verbatim>\<open>['127.0.0.1', ['10.0.0.1', '10.0.0.10']]\<close> the address \<^verbatim>\<open>0.0.0.1\<close> is in no range, yet
  \<open>testRange\<close> answers true under mode allow, and a request that carries the address
  in a configured header proceeds.
\<close>

theorem testRange_counts_string_tokens:
  "\<not> spec_range_member sample_lib ''0.0.0.1''
        [CStr ''127.0.0.1'', CArr [''10.0.0.1'', ''10.0.0.10'']]
   \<and> testRange sample_lib (static_ips [CStr ''127.0.0.1'', CArr [''10.0.0.1'', ''10.0.0.10'']])
        (Str ''0.0.0.1'') (CArr [''10.0.0.1'', ''10.0.0.10'']) ''allow'' 0 = (Inr True, 1)
   \<and> detect sample_lib (forwarded_settings ''allow'') (forwarded_request ''0.0.0.1'')
       = Inr [Str ''0.0.0.1'']
   \<and> fst (ipfilter sample_lib (forwarded_settings ''allow'')
            (static_ips [CStr ''127.0.0.1'', CArr [''10.0.0.1'', ''10.0.0.10'']])
            (forwarded_request ''0.0.0.1'') 0) = Proceed"
  by (simp add: model_defs sample_defs spec_range_member_def word_le_nat_alt)

end
